theory Spec2Isabelle
  imports Main "HOL-Library.Word"
begin

unbundle bit_operations_syntax

section \<open>Data model of HdfsFile.cpp\<close>

text \<open>
  A \<open>std::string\<close> is a sequence of bytes that may hold any value, zero included.
  Lengths, block counts and offsets are natural numbers. The source holds them in
  \<open>int\<close>, \<open>lzo_uint\<close> and \<open>tSize\<close>; its casts between these are exact as long as a
  string is shorter than \<open>2^31\<close> bytes, and this development covers that range.
\<close>

type_synonym byte = "8 word"
type_synonym bytes = "byte list"
type_synonym lzo_uint32 = "32 word"

text \<open>The calls the object makes on its HDFS handle, in the order it makes them.\<close>

datatype hdfs_call =
    OpenFile bytes int
  | Write bytes
  | CloseFile

text \<open>
  Everything the file links against but does not define: the LZO library
  (\<open>lzo_adler32\<close>, the two block compressors, each giving its return code and the
  bytes \<open>out[0..out_len)\<close>, \<open>lzo_version\<close>, the work-memory sizes), \<open>calloc\<close>,
  \<open>basename\<close>, and libhdfs. The libhdfs answers may depend on the calls made so far.
\<close>

record env =
  lzo_adler32 :: "lzo_uint32 \<Rightarrow> bytes \<Rightarrow> lzo_uint32"
  lzo1x_1_compress :: "bytes \<Rightarrow> int \<times> bytes"
  lzo1x_999_compress :: "bytes \<Rightarrow> int \<times> bytes"
  lzo_version :: "lzo_uint32"
  LZO1X_1_MEM_COMPRESS :: nat
  LZO1X_999_MEM_COMPRESS :: nat
  calloc_ok :: "nat \<Rightarrow> bool"
  basename :: "bytes \<Rightarrow> bytes"
  hdfsExists :: "hdfs_call list \<Rightarrow> bytes \<Rightarrow> int"
  hdfsOpenFile :: "hdfs_call list \<Rightarrow> bytes \<Rightarrow> int \<Rightarrow> bool"
  hdfsWrite :: "hdfs_call list \<Rightarrow> bytes \<Rightarrow> int"

text \<open>
  The members of an \<open>HdfsFile\<close> object; \<open>hdfs_log\<close> is not a member but the record of
  the calls that reached the file system through it.
\<close>

record HdfsFile =
  filename :: bytes
  fileSys :: bool
  hfile :: bool
  LZOCompressionLevel :: int
  LZObacklogBuffer :: bytes
  lzo_checksum :: lzo_uint32
  hdfs_log :: "hdfs_call list"

subsection \<open>Constants\<close>

definition lzop_magic :: bytes where
  "lzop_magic = [0x89, 0x4c, 0x5a, 0x4f, 0x00, 0x0d, 0x0a, 0x1a, 0x0a]"

definition lzo_block_size :: nat where
  "lzo_block_size = 256 * 1024"

definition F_ADLER32_D :: lzo_uint32 where
  "F_ADLER32_D = 0x00000001"

definition F_ADLER32_C :: lzo_uint32 where
  "F_ADLER32_C = 0x00000002"

definition lzo_flags :: lzo_uint32 where
  "lzo_flags = F_ADLER32_D OR F_ADLER32_C"

definition lzo_method :: int where
  "lzo_method = 1"

definition LZOP_VERSION :: lzo_uint32 where
  "LZOP_VERSION = 0x1010"

definition LZO_E_OK :: int where
  "LZO_E_OK = 0"

definition O_WRONLY :: int where
  "O_WRONLY = 1"

definition O_APPEND :: int where
  "O_APPEND = 1024"

definition npos :: nat where
  "npos = 2 ^ 64 - 1"

subsection \<open>Strings\<close>

text \<open>
  \<open>std::string(s.data())\<close> and \<open>s.c_str()\<close> read as a C string: the bytes before the
  first zero byte.
\<close>

definition c_str :: "bytes \<Rightarrow> bytes" where
  "c_str s = takeWhile (\<lambda>b. b \<noteq> 0) s"

text \<open>
  \<open>s.substr(pos, n)\<close>. It throws when \<open>pos\<close> exceeds the size; every call in this file
  has \<open>pos \<le> size\<close> (lemma \<open>offset_le_length\<close> below for the one in the loop).
\<close>

definition substr :: "bytes \<Rightarrow> nat \<Rightarrow> nat \<Rightarrow> bytes" where
  "substr s pos n = take n (drop pos s)"

subsection \<open>The primitive byte encoder\<close>

text \<open>
  Lines 69 to 100. Each appender returns the object with its running checksum updated
  and the string with the bytes appended.
\<close>

definition LZOStringAppendChar :: "env \<Rightarrow> HdfsFile \<times> bytes \<Rightarrow> int \<Rightarrow> HdfsFile \<times> bytes" where
  "LZOStringAppendChar E p c =
     (let (s, str) = p;
          cc = [word_of_int c :: byte]
      in (s\<lparr>lzo_checksum := lzo_adler32 E (lzo_checksum s) cc\<rparr>, str @ cc))"

definition int32_bytes :: "lzo_uint32 \<Rightarrow> bytes" where
  "int32_bytes v =
     [ucast (drop_bit 24 v AND 0xff), ucast (drop_bit 16 v AND 0xff),
      ucast (drop_bit 8 v AND 0xff), ucast (drop_bit 0 v AND 0xff)]"

definition LZOStringAppendInt32 :: "env \<Rightarrow> HdfsFile \<times> bytes \<Rightarrow> lzo_uint32 \<Rightarrow> HdfsFile \<times> bytes" where
  "LZOStringAppendInt32 E p v =
     (let (s, str) = p;
          b = int32_bytes v
      in (s\<lparr>lzo_checksum := lzo_adler32 E (lzo_checksum s) b\<rparr>, str @ b))"

definition int16_bytes :: "lzo_uint32 \<Rightarrow> bytes" where
  "int16_bytes v = [ucast (drop_bit 8 v), ucast (drop_bit 0 v)]"

definition LZOStringAppendInt16 :: "env \<Rightarrow> HdfsFile \<times> bytes \<Rightarrow> lzo_uint32 \<Rightarrow> HdfsFile \<times> bytes" where
  "LZOStringAppendInt16 E p v =
     (let (s, str) = p;
          b = int16_bytes v
      in (s\<lparr>lzo_checksum := lzo_adler32 E (lzo_checksum s) b\<rparr>, str @ b))"

subsection \<open>The sink\<close>

text \<open>
  A call of \<open>hdfsWrite\<close>, \<open>hdfsOpenFile\<close> or \<open>hdfsCloseFile\<close> asks the environment for
  the answer and records the call.
\<close>

definition hdfsWrite_call :: "env \<Rightarrow> HdfsFile \<Rightarrow> bytes \<Rightarrow> int \<times> HdfsFile" where
  "hdfsWrite_call E s buf =
     (hdfsWrite E (hdfs_log s) buf, s\<lparr>hdfs_log := hdfs_log s @ [Write buf]\<rparr>)"

definition hdfsOpenFile_call :: "env \<Rightarrow> HdfsFile \<Rightarrow> int \<Rightarrow> HdfsFile" where
  "hdfsOpenFile_call E s flags =
     s\<lparr>hfile := hdfsOpenFile E (hdfs_log s) (c_str (filename s)) flags,
       hdfs_log := hdfs_log s @ [OpenFile (c_str (filename s)) flags]\<rparr>"

definition hdfsCloseFile_call :: "HdfsFile \<Rightarrow> HdfsFile" where
  "hdfsCloseFile_call s = s\<lparr>hdfs_log := hdfs_log s @ [CloseFile]\<rparr>"

text \<open>The buffers passed to \<open>hdfsWrite\<close>, in order.\<close>

fun written :: "hdfs_call list \<Rightarrow> bytes list" where
  "written [] = []"
| "written (Write b # cs) = b # written cs"
| "written (c # cs) = written cs"

subsection \<open>openWrite\<close>

text \<open>
  Lines 104 to 186. \<open>filename.substr(0, -3)\<close> converts its count to \<open>npos - 2\<close>. The
  header is built by \<open>lzo_header_fields\<close> (lines 139 to 171), which starts from the
  checksum 1 and the magic bytes and returns the object and the header string.
\<close>

definition base_filename :: "HdfsFile \<Rightarrow> bytes" where
  "base_filename s =
     (if LZOCompressionLevel s > 0 then substr (filename s) 0 (npos - 2) else filename s)"

definition lzo_header_fields :: "env \<Rightarrow> HdfsFile \<Rightarrow> bytes \<Rightarrow> HdfsFile \<times> bytes" where
  "lzo_header_fields E s base =
     (let p = (s\<lparr>lzo_checksum := 1\<rparr>, lzop_magic);
          p = LZOStringAppendInt16 E p (LZOP_VERSION AND 0xffff);
          p = LZOStringAppendInt16 E p (lzo_version E AND 0xffff);
          p = LZOStringAppendInt16 E p 0x0940;
          p = LZOStringAppendChar E p lzo_method;
          p = LZOStringAppendChar E p (LZOCompressionLevel (fst p));
          p = LZOStringAppendInt32 E p lzo_flags;
          p = LZOStringAppendInt32 E p 436;
          p = LZOStringAppendInt32 E p 0;
          p = LZOStringAppendInt32 E p 0;
          baseFile = c_str (basename E (c_str base));
          p = LZOStringAppendChar E p (int (length baseFile));
          p = ((fst p)\<lparr>lzo_checksum := lzo_adler32 E (lzo_checksum (fst p)) baseFile\<rparr>,
               snd p @ baseFile);
          p = LZOStringAppendInt32 E p (lzo_checksum (fst p))
      in p)"

definition openWrite :: "env \<Rightarrow> HdfsFile \<Rightarrow> bool \<times> HdfsFile" where
  "openWrite E s =
     (if \<not> fileSys s then (False, s)
      else if hfile s then (False, s)
      else
        (let base = base_filename s;
             ex = (hdfsExists E (hdfs_log s) (c_str (filename s)) = 0);
             flags = (if ex then O_WRONLY OR O_APPEND else O_WRONLY);
             s1 = (if ex \<and> LZOCompressionLevel s \<noteq> 0
                   then s\<lparr>LZOCompressionLevel := 0\<rparr> else s);
             s2 = hdfsOpenFile_call E s1 flags
         in if hfile s2 then
              (if flags AND O_APPEND \<noteq> 0 then (True, s2)
               else if LZOCompressionLevel s2 \<noteq> 0 then
                 (let (s3, lzo_header) = lzo_header_fields E s2 base;
                      (bytesWritten, s4) = hdfsWrite_call E s3 lzo_header
                  in (True, s4\<lparr>LZObacklogBuffer := []\<rparr>))
               else (True, s2))
            else (False, s2)))"

definition isOpen :: "HdfsFile \<Rightarrow> bool" where
  "isOpen s = (if hfile s then True else False)"

subsection \<open>LZOCompress\<close>

text \<open>
  Lines 305 to 351: one pass of the loop body from the compressor call to the end of
  the frame. \<open>None\<close> is the exit through \<open>*success = false\<close>.
\<close>

definition LZOCompress_block :: "env \<Rightarrow> HdfsFile \<times> bytes \<Rightarrow> bytes \<Rightarrow> (HdfsFile \<times> bytes) option" where
  "LZOCompress_block E p block_data =
     (let (r, out) = (if LZOCompressionLevel (fst p) = 9
                      then lzo1x_999_compress E block_data
                      else lzo1x_1_compress E block_data);
          out_len = length out
      in if r \<noteq> LZO_E_OK \<or>
            out_len > length block_data + length block_data div 16 + 64 + 3
         then None
         else
           (let p = LZOStringAppendInt32 E p (of_nat (length block_data))
            in if out_len < length block_data then
                 (let out_len32 = (of_nat out_len :: lzo_uint32);
                      p = LZOStringAppendInt32 E p out_len32;
                      d_checksum = lzo_adler32 E 1 block_data;
                      p = LZOStringAppendInt32 E p d_checksum;
                      c_checksum = lzo_adler32 E 1 (take (unat out_len32) out);
                      p = LZOStringAppendInt32 E p c_checksum
                  in Some (fst p, snd p @ out))
               else
                 (let p = LZOStringAppendInt32 E p (of_nat (length block_data))
                  in Some (fst p, snd p @ block_data))))"

text \<open>Lines 296 to 303: the block the loop cuts out of \<open>data\<close> at index \<open>i\<close>.\<close>

definition block_data_at :: "bytes \<Rightarrow> nat \<Rightarrow> nat \<Rightarrow> nat \<Rightarrow> bytes" where
  "block_data_at data blocks total_data_length i =
     (let offset = i * lzo_block_size;
          data_len = (if blocks = 0 then total_data_length else lzo_block_size);
          data_len = (if i = blocks then data_len + (length data - total_data_length)
                      else data_len)
      in substr data offset data_len)"

text \<open>
  The loop \<open>for (int i = 0; i < blocks || blocks == 0; i++)\<close> with its
  \<open>if (blocks == 0) break\<close>. The first component is the object, the second the
  compressed string, or \<open>None\<close> after a failed block.
\<close>

function LZOCompress_loop ::
  "env \<Rightarrow> bytes \<Rightarrow> nat \<Rightarrow> nat \<Rightarrow> nat \<Rightarrow> HdfsFile \<times> bytes \<Rightarrow> HdfsFile \<times> bytes option" where
  "LZOCompress_loop E data blocks total_data_length i p =
     (if i < blocks \<or> blocks = 0 then
        (case LZOCompress_block E p (block_data_at data blocks total_data_length i) of
           None \<Rightarrow> (fst p, None)
         | Some p' \<Rightarrow>
             if blocks = 0 then (fst p', Some (snd p'))
             else LZOCompress_loop E data blocks total_data_length (i + 1) p')
      else (fst p, Some (snd p)))"
  by pat_completeness auto
termination
  by (relation "measure (\<lambda>(E, data, blocks, total, i, p). blocks - i)") auto

declare LZOCompress_loop.simps [simp del]

text \<open>
  Lines 239 to 360. \<open>LZOCompress(inputData, force, &success)\<close> gives the returned string,
  \<open>*success\<close> and the object afterwards.
\<close>

definition LZOCompress :: "env \<Rightarrow> HdfsFile \<Rightarrow> bytes \<Rightarrow> bool \<Rightarrow> bytes \<times> bool \<times> HdfsFile" where
  "LZOCompress E s inputData force =
     (let data = c_str inputData;
          (data, s) = (if length (LZObacklogBuffer s) > 0
                       then (LZObacklogBuffer s @ c_str inputData, s\<lparr>LZObacklogBuffer := []\<rparr>)
                       else (data, s))
      in if length data < lzo_block_size \<and> force = False
         then (inputData, True, s\<lparr>LZObacklogBuffer := data\<rparr>)
         else
           (let wrk_len = (if LZOCompressionLevel s = 9 then LZO1X_999_MEM_COMPRESS E
                           else LZO1X_1_MEM_COMPRESS E);
                blocks = length data div lzo_block_size;
                total_data_length = blocks * lzo_block_size;
                total_data_length = (if blocks = 0 then length data else total_data_length);
                out = calloc_ok E (lzo_block_size + lzo_block_size div 16 + 64 + 3);
                wrkmem = calloc_ok E wrk_len
            in if \<not> out \<or> \<not> wrkmem then (data, False, s)
               else
                 (case LZOCompress_loop E data blocks total_data_length 0 (s, []) of
                    (s', None) \<Rightarrow> (data, False, s')
                  | (s', Some compressedData) \<Rightarrow> (compressedData, True, s'))))"

subsection \<open>write and close\<close>

text \<open>
  Lines 362 to 400 and 199 to 225. \<open>write\<close> is named \<open>write_file\<close> here; it gives its
  return value and the object afterwards.
\<close>

definition write_file :: "env \<Rightarrow> HdfsFile \<Rightarrow> bytes \<Rightarrow> bool \<times> HdfsFile" where
  "write_file E s0 data =
     (let (opened, s) = (if \<not> isOpen s0 then openWrite E s0 else (True, s0))
      in if \<not> opened then (False, s)
         else if LZOCompressionLevel s \<noteq> 0 then
           (let (compressedData, success, s) = LZOCompress E s data False
            in if compressedData \<noteq> data \<and> success = True then
                 (let (bytesWritten, s) = hdfsWrite_call E s compressedData
                  in (bytesWritten = int (length compressedData), s))
               else if success = False then
                 (let (bytesWritten, s) = hdfsWrite_call E s data
                  in (bytesWritten = int (length data), s))
               else (success, s))
         else
           (let (bytesWritten, s) = hdfsWrite_call E s data
            in (bytesWritten = int (length data), s)))"

definition close :: "env \<Rightarrow> HdfsFile \<Rightarrow> HdfsFile" where
  "close E s =
     (if fileSys s then
        (if hfile s then
           (let s = (if LZOCompressionLevel s \<noteq> 0 then
                       (let (clearBuf, good, s) = LZOCompress E s [] True;
                            s = (if good = True then snd (hdfsWrite_call E s clearBuf) else s)
                        in snd (hdfsWrite_call E s [0, 0, 0, 0]))
                     else s)
            in hdfsCloseFile_call s)
         else s)\<lparr>hfile := False\<rparr>
      else s)"

section \<open>The frame format in the specification's words\<close>

text \<open>The compressor the framer calls at a given compression level.\<close>

definition compressor :: "env \<Rightarrow> int \<Rightarrow> bytes \<Rightarrow> int \<times> bytes" where
  "compressor E level block =
     (if level = 9 then lzo1x_999_compress E block else lzo1x_1_compress E block)"

text \<open>The compressor reported success and a result within the expansion bound.\<close>

definition compress_ok :: "env \<Rightarrow> int \<Rightarrow> bytes \<Rightarrow> bool" where
  "compress_ok E level block =
     (fst (compressor E level block) = LZO_E_OK \<and>
      length (snd (compressor E level block)) \<le> length block + length block div 16 + 64 + 3)"

text \<open>
  Variant (a): uncompressed length, compressed length, checksum of the raw block,
  checksum of the compressed bytes, compressed bytes. Variant (b): the uncompressed
  length twice, then the raw block. Both checksums are seeded at 1.
\<close>

definition frame_a :: "env \<Rightarrow> bytes \<Rightarrow> bytes \<Rightarrow> bytes" where
  "frame_a E block out =
     int32_bytes (of_nat (length block)) @ int32_bytes (of_nat (length out)) @
     int32_bytes (lzo_adler32 E 1 block) @ int32_bytes (lzo_adler32 E 1 out) @ out"

definition frame_b :: "bytes \<Rightarrow> bytes" where
  "frame_b block =
     int32_bytes (of_nat (length block)) @ int32_bytes (of_nat (length block)) @ block"

text \<open>The frame of one block: variant (a) when compression made it smaller, else (b).\<close>

definition spec_frame :: "env \<Rightarrow> int \<Rightarrow> bytes \<Rightarrow> bytes" where
  "spec_frame E level block =
     (let out = snd (compressor E level block)
      in if length out < length block then frame_a E block out else frame_b block)"

text \<open>The blocks the loop of \<open>LZOCompress\<close> hands to the compressor, in order.\<close>

definition LZO_blocks :: "bytes \<Rightarrow> bytes list" where
  "LZO_blocks data =
     (let blocks = length data div lzo_block_size;
          total_data_length = (if blocks = 0 then length data else blocks * lzo_block_size)
      in map (block_data_at data blocks total_data_length)
             (if blocks = 0 then [0] else [0..<blocks]))"

text \<open>
  The fields of the stream header after the magic marker, as the specification lists
  them: format version, generator version, minimum version to decode, method,
  compression level, flag bits, file mode, mtime, timezone offset, base-name length and
  base name.
\<close>

definition header_chunks :: "env \<Rightarrow> HdfsFile \<Rightarrow> bytes list" where
  "header_chunks E s =
     (let baseFile = c_str (basename E (c_str (base_filename s)))
      in [int16_bytes 0x1010, int16_bytes (lzo_version E AND 0xffff), int16_bytes 0x0940,
          [1], [word_of_int (LZOCompressionLevel s)],
          int32_bytes 3, int32_bytes 436, int32_bytes 0, int32_bytes 0,
          [of_nat (length baseFile)], baseFile])"

section \<open>A concrete environment\<close>

text \<open>
  For the examples: Adler-32 as the checksum, a lossless toy compressor that shrinks a
  short run of one byte value to three bytes and otherwise stores the block behind a
  zero marker, allocation that succeeds, and a file system that accepts every byte and
  knows the file once it has been opened.
\<close>

fun adler32_step :: "nat \<times> nat \<Rightarrow> byte \<Rightarrow> nat \<times> nat" where
  "adler32_step (a, b) x = ((a + unat x) mod 65521, (b + (a + unat x) mod 65521) mod 65521)"

definition adler32 :: "lzo_uint32 \<Rightarrow> bytes \<Rightarrow> lzo_uint32" where
  "adler32 adler buf =
     (let (a, b) = foldl adler32_step (unat adler mod 65536, unat adler div 65536) buf
      in of_nat (b * 65536 + a))"

definition demo_compress :: "bytes \<Rightarrow> int \<times> bytes" where
  "demo_compress b =
     (if 0 < length b \<and> length b < 256 \<and> b = replicate (length b) (hd b)
      then (0, [1, of_nat (length b), hd b])
      else (0, 0 # b))"

definition demo_env :: env where
  "demo_env =
     \<lparr>lzo_adler32 = adler32,
      lzo1x_1_compress = demo_compress,
      lzo1x_999_compress = demo_compress,
      lzo_version = 0x2030,
      LZO1X_1_MEM_COMPRESS = 65536,
      LZO1X_999_MEM_COMPRESS = 458752,
      calloc_ok = (\<lambda>n. True),
      basename = (\<lambda>path. path),
      hdfsExists = (\<lambda>log name. if log = [] then - 1 else 0),
      hdfsOpenFile = (\<lambda>log name flags. True),
      hdfsWrite = (\<lambda>log buf. int (length buf))\<rparr>"

definition demo_file :: HdfsFile where
  "demo_file =
     \<lparr>filename = [102, 46, 108, 122, 111], fileSys = True, hfile = True,
      LZOCompressionLevel = 1, LZObacklogBuffer = [], lzo_checksum = 1, hdfs_log = []\<rparr>"

text \<open>The same library with a block compressor that reports \<open>LZO_E_ERROR\<close>.\<close>

definition failing_env :: env where
  "failing_env = demo_env\<lparr>lzo1x_1_compress := (\<lambda>b. (- 1, []))\<rparr>"


text \<open>The same environment with a file system that refuses to open the file.\<close>

definition offline_env :: env where
  "offline_env = demo_env\<lparr>hdfsOpenFile := (\<lambda>log name flags. False)\<rparr>"

text \<open>
  \<open>demo_file\<close> is open with compression on; \<open>closed_file\<close> is the same object before its
  first open; \<open>reopened_file\<close> has level 9 and a name that was written and closed before.
\<close>

definition closed_file :: HdfsFile where
  "closed_file = demo_file\<lparr>hfile := False\<rparr>"

definition reopened_file :: HdfsFile where
  "reopened_file =
     demo_file\<lparr>hfile := False, LZOCompressionLevel := 9,
               hdfs_log := [OpenFile [102, 46, 108, 122, 111] 1, CloseFile]\<rparr>"

section \<open>Basic facts\<close>

lemma c_str_id: "0 \<notin> set xs \<Longrightarrow> c_str xs = xs"
  by (auto simp add: c_str_def)

lemma c_str_length: "length (c_str data) \<le> length data"
  by (simp add: c_str_def length_takeWhile_le)

lemma AppendInt32_simp:
  "LZOStringAppendInt32 E (s, str) v =
     (s\<lparr>lzo_checksum := lzo_adler32 E (lzo_checksum s) (int32_bytes v)\<rparr>, str @ int32_bytes v)"
  by (simp add: LZOStringAppendInt32_def Let_def)

lemma AppendInt16_simp:
  "LZOStringAppendInt16 E (s, str) v =
     (s\<lparr>lzo_checksum := lzo_adler32 E (lzo_checksum s) (int16_bytes v)\<rparr>, str @ int16_bytes v)"
  by (simp add: LZOStringAppendInt16_def Let_def)

lemma AppendChar_simp:
  "LZOStringAppendChar E (s, str) c =
     (s\<lparr>lzo_checksum := lzo_adler32 E (lzo_checksum s) [word_of_int c]\<rparr>, str @ [word_of_int c])"
  by (simp add: LZOStringAppendChar_def Let_def)

lemma checksum_update_self: "\<exists>c. (r :: HdfsFile) = r\<lparr>lzo_checksum := c\<rparr>"
  by (rule exI [of _ "lzo_checksum r"]) simp

lemma written_append: "written (xs @ ys) = written xs @ written ys"
  by (induction xs rule: written.induct) simp_all

lemma flags_append: "(O_WRONLY OR O_APPEND) AND O_APPEND \<noteq> 0"
  by (simp add: O_WRONLY_def O_APPEND_def)

lemma flags_write: "O_WRONLY AND O_APPEND = 0"
  by (simp add: O_WRONLY_def O_APPEND_def)

lemma level_zero_self:
  "LZOCompressionLevel s = 0 \<Longrightarrow> s\<lparr>LZOCompressionLevel := 0\<rparr> = s"
  by (cases s) simp

lemma demo_file_fields:
  "LZOCompressionLevel demo_file = 1" "LZObacklogBuffer demo_file = []" "hfile demo_file"
  "fileSys demo_file" "hdfs_log demo_file = []"
  by (simp_all add: demo_file_def)

lemma demo_file_no_backlog: "demo_file\<lparr>LZObacklogBuffer := []\<rparr> = demo_file"
  by (simp add: demo_file_def)

section \<open>One block\<close>


lemma LZOCompress_block_Some:
  assumes "compress_ok E (LZOCompressionLevel (fst p)) block" "length block < 2 ^ 32"
  shows "\<exists>c. LZOCompress_block E p block =
     Some ((fst p)\<lparr>lzo_checksum := c\<rparr>, snd p @ spec_frame E (LZOCompressionLevel (fst p)) block)"
proof (cases p)
  case (Pair s str)
  obtain r out where c: "compressor E (LZOCompressionLevel s) block = (r, out)"
    by (cases "compressor E (LZOCompressionLevel s) block")
  from assms Pair c have ok: "r = LZO_E_OK" "length out \<le> length block + length block div 16 + 64 + 3"
    by (simp_all add: compress_ok_def)
  show ?thesis
  proof (cases "length out < length block")
    case True
    with assms(2) have "take (unat (of_nat (length out) :: lzo_uint32)) out = out"
      by (simp add: unat_of_nat)
    with True ok c Pair show ?thesis
      by (cases "LZOCompressionLevel s = 9")
         (auto simp: LZOCompress_block_def compressor_def Let_def AppendInt32_simp
            spec_frame_def frame_a_def)
  next
    case False
    with ok c Pair show ?thesis
      by (cases "LZOCompressionLevel s = 9")
         (auto simp: LZOCompress_block_def compressor_def Let_def AppendInt32_simp
            spec_frame_def frame_b_def)
  qed
qed

lemma LZOCompress_block_fst:
  "LZOCompress_block E p block = Some p' \<Longrightarrow> \<exists>c. fst p' = (fst p)\<lparr>lzo_checksum := c\<rparr>"
  by (cases p, cases "LZOCompressionLevel (fst p) = 9")
     (auto simp: LZOCompress_block_def Let_def AppendInt32_simp split: prod.splits if_splits)


section \<open>The loop and the whole of LZOCompress\<close>


lemma LZOCompress_loop_fst:
  "LZOCompress_loop E data blocks tot i p = (s', r) \<Longrightarrow> \<exists>c. s' = (fst p)\<lparr>lzo_checksum := c\<rparr>"
proof (induction E data blocks tot i p rule: LZOCompress_loop.induct)
  case (1 E data blocks tot i p)
  let ?B = "block_data_at data blocks tot"
  show ?case
  proof (cases "i < blocks \<or> blocks = 0")
    case False
    with "1.prems" have "s' = fst p" by (simp add: LZOCompress_loop.simps)
    then show ?thesis using checksum_update_self [of "fst p"] by simp
  next
    case True
    show ?thesis
    proof (cases "LZOCompress_block E p (?B i)")
      case None
      with True "1.prems" have "s' = fst p" by (simp add: LZOCompress_loop.simps)
      then show ?thesis using checksum_update_self [of "fst p"] by simp
    next
      case (Some p')
      from LZOCompress_block_fst [OF Some] obtain c where c: "fst p' = (fst p)\<lparr>lzo_checksum := c\<rparr>"
        by blast
      show ?thesis
      proof (cases "blocks = 0")
        case True
        with Some "1.prems" have "s' = fst p'" by (simp add: LZOCompress_loop.simps)
        with c show ?thesis by blast
      next
        case False
        with True Some "1.prems"
        have "LZOCompress_loop E data blocks tot (i + 1) p' = (s', r)"
          by (simp add: LZOCompress_loop.simps [of E data blocks tot i p])
        from "1.IH" [OF True Some False this] obtain c' where "s' = (fst p')\<lparr>lzo_checksum := c'\<rparr>"
          by blast
        with c have "s' = (fst p)\<lparr>lzo_checksum := c'\<rparr>" by simp
        then show ?thesis by blast
      qed
    qed
  qed
qed


lemma offset_le_length:
  "i < length data div lzo_block_size \<Longrightarrow> i * lzo_block_size \<le> length data"
proof -
  assume "i < length data div lzo_block_size"
  then have "i * lzo_block_size \<le> (length data div lzo_block_size) * lzo_block_size"
    by simp
  also have "\<dots> \<le> length data" by simp
  finally show ?thesis .
qed

lemma LZOCompress_eq:
  "LZOCompress E s inputData force =
     (let data = LZObacklogBuffer s @ c_str inputData;
          s0 = s\<lparr>LZObacklogBuffer := []\<rparr>;
          blocks = length data div lzo_block_size;
          tot = (if blocks = 0 then length data else blocks * lzo_block_size)
      in if length data < lzo_block_size \<and> \<not> force
         then (inputData, True, s\<lparr>LZObacklogBuffer := data\<rparr>)
         else if \<not> calloc_ok E (lzo_block_size + lzo_block_size div 16 + 64 + 3) \<or>
                 \<not> calloc_ok E (if LZOCompressionLevel s = 9 then LZO1X_999_MEM_COMPRESS E
                                 else LZO1X_1_MEM_COMPRESS E)
         then (data, False, s0)
         else (case LZOCompress_loop E data blocks tot 0 (s0, []) of
                 (s', None) \<Rightarrow> (data, False, s')
               | (s', Some compressedData) \<Rightarrow> (compressedData, True, s')))"
proof (cases "LZObacklogBuffer s = []")
  case True
  then have eq: "s\<lparr>LZObacklogBuffer := []\<rparr> = s"
    by (cases s) simp
  from True show ?thesis
    by (simp add: LZOCompress_def Let_def eq)
next
  case False
  then show ?thesis
    by (simp add: LZOCompress_def Let_def)
qed

lemma LZOCompress_state:
  "LZOCompress E s inputData force = (result, success, s') \<Longrightarrow>
   \<exists>b c. s' = s\<lparr>LZObacklogBuffer := b, lzo_checksum := c\<rparr>"
proof -
  assume a: "LZOCompress E s inputData force = (result, success, s')"
  let ?data = "LZObacklogBuffer s @ c_str inputData"
  let ?blocks = "length ?data div lzo_block_size"
  let ?tot = "if ?blocks = 0 then length ?data else ?blocks * lzo_block_size"
  let ?s0 = "s\<lparr>LZObacklogBuffer := []\<rparr>"
  obtain s1 r where loop: "LZOCompress_loop E ?data ?blocks ?tot 0 (?s0, []) = (s1, r)"
    by (cases "LZOCompress_loop E ?data ?blocks ?tot 0 (?s0, [])")
  from LZOCompress_loop_fst [OF loop] obtain c where s1: "s1 = ?s0\<lparr>lzo_checksum := c\<rparr>"
    by auto
  have k: "\<And>b. s\<lparr>LZObacklogBuffer := b\<rparr> = s\<lparr>LZObacklogBuffer := b, lzo_checksum := lzo_checksum s\<rparr>"
    by simp
  from a loop s1 have
    "s' = s\<lparr>LZObacklogBuffer := ?data\<rparr> \<or> s' = ?s0 \<or> s' = ?s0\<lparr>lzo_checksum := c\<rparr>"
    unfolding LZOCompress_eq Let_def
    by (cases r) (auto split: if_splits)
  then show ?thesis using k by metis
qed

lemma LZOCompress_failure_state:
  "LZOCompress E s inputData force = (result, False, s') \<Longrightarrow>
   \<exists>c. s' = s\<lparr>LZObacklogBuffer := [], lzo_checksum := c\<rparr>"
proof -
  assume a: "LZOCompress E s inputData force = (result, False, s')"
  let ?data = "LZObacklogBuffer s @ c_str inputData"
  let ?blocks = "length ?data div lzo_block_size"
  let ?tot = "if ?blocks = 0 then length ?data else ?blocks * lzo_block_size"
  let ?s0 = "s\<lparr>LZObacklogBuffer := []\<rparr>"
  obtain s1 r where loop: "LZOCompress_loop E ?data ?blocks ?tot 0 (?s0, []) = (s1, r)"
    by (cases "LZOCompress_loop E ?data ?blocks ?tot 0 (?s0, [])")
  from LZOCompress_loop_fst [OF loop] obtain c where s1: "s1 = ?s0\<lparr>lzo_checksum := c\<rparr>"
    by auto
  have k: "?s0 = s\<lparr>LZObacklogBuffer := [], lzo_checksum := lzo_checksum s\<rparr>"
    by simp
  from a loop s1 have "s' = ?s0 \<or> s' = ?s0\<lparr>lzo_checksum := c\<rparr>"
    unfolding LZOCompress_eq Let_def
    by (cases r) (auto split: if_splits)
  then show ?thesis using k by metis
qed



lemma LZO_blocks_short:
  "length data < lzo_block_size \<Longrightarrow> LZO_blocks data = [data]"
  by (simp add: LZO_blocks_def Let_def block_data_at_def substr_def)

lemma LZO_blocks_full:
  assumes "lzo_block_size \<le> length data"
  shows "LZO_blocks data =
     map (\<lambda>i. take lzo_block_size (drop (i * lzo_block_size) data))
         [0..<length data div lzo_block_size]"
proof -
  have pos: "0 < lzo_block_size" by (simp add: lzo_block_size_def)
  with assms have b: "0 < length data div lzo_block_size"
    by (simp add: div_greater_zero_iff)
  then show ?thesis
    by (auto simp add: LZO_blocks_def Let_def block_data_at_def substr_def)
qed

lemma concat_chunks:
  "concat (map (\<lambda>i. take k (drop (i * k) xs)) [0..<n]) = take (n * k) xs"
proof (induction n)
  case 0
  then show ?case by simp
next
  case (Suc n)
  have "take (n * k) xs @ take k (drop (n * k) xs) = take (n * k + k) xs"
    by (simp add: take_add)
  with Suc show ?case by (simp add: add.commute)
qed

lemma LZO_blocks_concat:
  assumes "lzo_block_size \<le> length data"
  shows "concat (LZO_blocks data) =
     take (length data div lzo_block_size * lzo_block_size) data"
  by (simp add: LZO_blocks_full [OF assms] concat_chunks)

lemma LZO_blocks_lose_remainder:
  assumes "lzo_block_size \<le> length data" "\<not> lzo_block_size dvd length data"
  shows "length (concat (LZO_blocks data)) < length data"
proof -
  have "length data div lzo_block_size * lzo_block_size \<le> length data" by simp
  moreover from assms(2) have "length data div lzo_block_size * lzo_block_size \<noteq> length data"
    by (metis dvd_triv_right)
  ultimately have "length data div lzo_block_size * lzo_block_size < length data" by linarith
  then show ?thesis by (simp add: LZO_blocks_concat [OF assms(1)])
qed


section \<open>Frame variants\<close>


lemma demo_compress_run: "demo_compress [65, 65, 65, 65] = (0, [1, 4, 65])"
  by (simp add: demo_compress_def)



section \<open>The stream header and the checksums\<close>

lemma lzo_header_fields_snd:
  "LZOCompressionLevel s' = LZOCompressionLevel s \<Longrightarrow>
   snd (lzo_header_fields E s' (base_filename s)) =
     lzop_magic @ concat (header_chunks E s) @
     int32_bytes (foldl (lzo_adler32 E) 1 (header_chunks E s))"
  by (simp add: lzo_header_fields_def header_chunks_def Let_def AppendInt16_simp AppendChar_simp
        AppendInt32_simp lzo_method_def lzo_flags_def F_ADLER32_D_def F_ADLER32_C_def
        LZOP_VERSION_def)

lemma lzo_header_fields_fst:
  "\<exists>c. fst (lzo_header_fields E s base) = s\<lparr>lzo_checksum := c\<rparr>"
  by (simp add: lzo_header_fields_def Let_def AppendInt16_simp AppendChar_simp AppendInt32_simp)
     (rule exI, rule refl)

lemma openWrite_closed_fs: "\<not> fileSys s \<Longrightarrow> openWrite E s = (False, s)"
  by (simp add: openWrite_def)

lemma openWrite_already: "hfile s \<Longrightarrow> openWrite E s = (False, s)"
  by (simp add: openWrite_def)

lemma openWrite_append:
  assumes "fileSys s" "\<not> hfile s" "hdfsExists E (hdfs_log s) (c_str (filename s)) = 0"
  shows "openWrite E s =
     (hdfsOpenFile E (hdfs_log s) (c_str (filename s)) (O_WRONLY OR O_APPEND),
      s\<lparr>LZOCompressionLevel := 0,
        hfile := hdfsOpenFile E (hdfs_log s) (c_str (filename s)) (O_WRONLY OR O_APPEND),
        hdfs_log := hdfs_log s @ [OpenFile (c_str (filename s)) (O_WRONLY OR O_APPEND)]\<rparr>)"
proof (cases "LZOCompressionLevel s = 0")
  case True
  with assms level_zero_self [OF True] show ?thesis
    by (simp add: openWrite_def Let_def flags_append hdfsOpenFile_call_def)
next
  case False
  with assms show ?thesis
    by (simp add: openWrite_def Let_def flags_append hdfsOpenFile_call_def)
qed

lemma openWrite_no_handle:
  assumes "fileSys s" "\<not> hfile s" "hdfsExists E (hdfs_log s) (c_str (filename s)) \<noteq> 0"
      and "\<not> hdfsOpenFile E (hdfs_log s) (c_str (filename s)) O_WRONLY"
  shows "openWrite E s =
     (False, s\<lparr>hfile := False,
               hdfs_log := hdfs_log s @ [OpenFile (c_str (filename s)) O_WRONLY]\<rparr>)"
  using assms by (simp add: openWrite_def Let_def hdfsOpenFile_call_def)

lemma openWrite_plain:
  assumes "fileSys s" "\<not> hfile s" "hdfsExists E (hdfs_log s) (c_str (filename s)) \<noteq> 0"
      and "hdfsOpenFile E (hdfs_log s) (c_str (filename s)) O_WRONLY"
      and "LZOCompressionLevel s = 0"
  shows "openWrite E s =
     (True, s\<lparr>hfile := True,
              hdfs_log := hdfs_log s @ [OpenFile (c_str (filename s)) O_WRONLY]\<rparr>)"
  using assms by (simp add: openWrite_def Let_def hdfsOpenFile_call_def flags_write)

lemma openWrite_fresh:
  assumes "fileSys s" "\<not> hfile s" "hdfsExists E (hdfs_log s) (c_str (filename s)) \<noteq> 0"
      and "LZOCompressionLevel s \<noteq> 0"
      and "hdfsOpenFile E (hdfs_log s) (c_str (filename s)) O_WRONLY"
  shows "\<exists>c. openWrite E s =
     (True, s\<lparr>hfile := True, LZObacklogBuffer := [], lzo_checksum := c,
              hdfs_log := hdfs_log s @ [OpenFile (c_str (filename s)) O_WRONLY,
                                        Write (snd (lzo_header_fields E s (base_filename s)))]\<rparr>)"
proof -
  let ?s2 = "hdfsOpenFile_call E s O_WRONLY"
  have s2: "?s2 = s\<lparr>hfile := True,
      hdfs_log := hdfs_log s @ [OpenFile (c_str (filename s)) O_WRONLY]\<rparr>"
    using assms(5) by (simp add: hdfsOpenFile_call_def)
  obtain c where c: "fst (lzo_header_fields E ?s2 (base_filename s)) =
      ?s2\<lparr>lzo_checksum := c\<rparr>"
    using lzo_header_fields_fst by blast
  have h: "snd (lzo_header_fields E ?s2 (base_filename s)) =
      snd (lzo_header_fields E s (base_filename s))"
    by (simp add: lzo_header_fields_snd s2)
  have lh: "lzo_header_fields E ?s2 (base_filename s) =
      (?s2\<lparr>lzo_checksum := c\<rparr>, snd (lzo_header_fields E s (base_filename s)))"
    using c h by (simp add: prod_eq_iff)
  have o: "openWrite E s =
      (let (s3, lzo_header) = lzo_header_fields E ?s2 (base_filename s);
           (bytesWritten, s4) = hdfsWrite_call E s3 lzo_header
       in (True, s4\<lparr>LZObacklogBuffer := []\<rparr>))"
    using assms s2 by (simp add: openWrite_def Let_def flags_write)
  have "openWrite E s =
     (True, s\<lparr>hfile := True, LZObacklogBuffer := [], lzo_checksum := c,
              hdfs_log := hdfs_log s @ [OpenFile (c_str (filename s)) O_WRONLY,
                                        Write (snd (lzo_header_fields E s (base_filename s)))]\<rparr>)"
    unfolding o lh by (simp add: s2 hdfsWrite_call_def)
  then show ?thesis by blast
qed

lemma openWrite_written:
  assumes "written (hdfs_log (snd (openWrite E s))) \<noteq> written (hdfs_log s)"
  shows "fileSys s \<and> \<not> hfile s \<and> hdfsExists E (hdfs_log s) (c_str (filename s)) \<noteq> 0 \<and>
         LZOCompressionLevel s \<noteq> 0 \<and> hdfsOpenFile E (hdfs_log s) (c_str (filename s)) O_WRONLY"
proof (rule ccontr)
  assume n: "\<not> ?thesis"
  have "written (hdfs_log (snd (openWrite E s))) = written (hdfs_log s)"
  proof (cases "fileSys s \<and> \<not> hfile s")
    case False
    then show ?thesis using openWrite_closed_fs [of s E] openWrite_already [of s E] by auto
  next
    case fh: True
    show ?thesis
    proof (cases "hdfsExists E (hdfs_log s) (c_str (filename s)) = 0")
      case True
      with fh show ?thesis by (simp add: openWrite_append written_append)
    next
      case ne: False
      show ?thesis
      proof (cases "hdfsOpenFile E (hdfs_log s) (c_str (filename s)) O_WRONLY")
        case False
        with fh ne show ?thesis by (simp add: openWrite_no_handle written_append)
      next
        case True
        with n fh ne have "LZOCompressionLevel s = 0" by simp
        with fh ne True show ?thesis by (simp add: openWrite_plain written_append)
      qed
    qed
  qed
  with assms show False by simp
qed

text \<open>
  Claim C7. When \<open>openWrite\<close> starts a compressed stream, the checksum that closes the
  header is the accumulator run from the seed 1 over the header fields after the magic
  marker, whatever the object's running checksum was before. For a block that the
  compressor shrinks, the frame carries the accumulator seeded at 1 over the raw block
  and the accumulator seeded at 1 over the compressed bytes: neither depends on the
  running checksum of the object nor on the frames emitted before.
\<close>

theorem checksums_seeded_at_one:
  "(fileSys s \<and> \<not> hfile s \<and> hdfsExists E (hdfs_log s) (c_str (filename s)) \<noteq> 0 \<and>
    LZOCompressionLevel s \<noteq> 0 \<and> hdfsOpenFile E (hdfs_log s) (c_str (filename s)) O_WRONLY \<longrightarrow>
      written (hdfs_log (snd (openWrite E s))) =
        written (hdfs_log s) @
        [lzop_magic @ concat (header_chunks E s) @
         int32_bytes (foldl (lzo_adler32 E) 1 (header_chunks E s))]) \<and>
   (compress_ok E (LZOCompressionLevel s) block \<and> length block \<le> lzo_block_size \<and>
    length (snd (compressor E (LZOCompressionLevel s) block)) < length block \<longrightarrow>
      (\<exists>c. LZOCompress_block E (s, str) block =
         Some (s\<lparr>lzo_checksum := c\<rparr>,
               str @ int32_bytes (of_nat (length block)) @
               int32_bytes (of_nat (length (snd (compressor E (LZOCompressionLevel s) block)))) @
               int32_bytes (lzo_adler32 E 1 block) @
               int32_bytes (lzo_adler32 E 1 (snd (compressor E (LZOCompressionLevel s) block))) @
               snd (compressor E (LZOCompressionLevel s) block))))"
proof (intro conjI impI)
  assume "fileSys s \<and> \<not> hfile s \<and> hdfsExists E (hdfs_log s) (c_str (filename s)) \<noteq> 0 \<and>
    LZOCompressionLevel s \<noteq> 0 \<and> hdfsOpenFile E (hdfs_log s) (c_str (filename s)) O_WRONLY"
  then have f: "fileSys s" "\<not> hfile s" "hdfsExists E (hdfs_log s) (c_str (filename s)) \<noteq> 0"
    "LZOCompressionLevel s \<noteq> 0" "hdfsOpenFile E (hdfs_log s) (c_str (filename s)) O_WRONLY"
    by simp_all
  from openWrite_fresh [OF f] obtain c where "openWrite E s =
     (True, s\<lparr>hfile := True, LZObacklogBuffer := [], lzo_checksum := c,
              hdfs_log := hdfs_log s @ [OpenFile (c_str (filename s)) O_WRONLY,
                                        Write (snd (lzo_header_fields E s (base_filename s)))]\<rparr>)"
    by blast
  then show "written (hdfs_log (snd (openWrite E s))) =
        written (hdfs_log s) @
        [lzop_magic @ concat (header_chunks E s) @
         int32_bytes (foldl (lzo_adler32 E) 1 (header_chunks E s))]"
    by (simp add: written_append lzo_header_fields_snd)
next
  let ?out = "snd (compressor E (LZOCompressionLevel s) block)"
  assume a: "compress_ok E (LZOCompressionLevel s) block \<and> length block \<le> lzo_block_size \<and>
    length ?out < length block"
  then have ok: "compress_ok E (LZOCompressionLevel (fst (s, str))) block" by simp
  from a have "length block < 2 ^ 32" by (simp add: lzo_block_size_def)
  from LZOCompress_block_Some [OF ok this] a
  show "\<exists>c. LZOCompress_block E (s, str) block =
         Some (s\<lparr>lzo_checksum := c\<rparr>,
               str @ int32_bytes (of_nat (length block)) @
               int32_bytes (of_nat (length ?out)) @
               int32_bytes (lzo_adler32 E 1 block) @
               int32_bytes (lzo_adler32 E 1 ?out) @ ?out)"
    by (simp add: spec_frame_def frame_a_def Let_def)
qed

lemma demo_block_ok:
  "compress_ok demo_env (LZOCompressionLevel demo_file) [65, 65, 65, 65] \<and>
   length [65 :: byte, 65, 65, 65] \<le> lzo_block_size \<and>
   length (snd (compressor demo_env (LZOCompressionLevel demo_file) [65, 65, 65, 65])) <
     length [65 :: byte, 65, 65, 65]"
  by (simp add: compress_ok_def compressor_def demo_env_def demo_file_def demo_compress_run
        LZO_E_OK_def lzo_block_size_def)

theorem checksums_seeded_at_one_witness:
  "written (hdfs_log (snd (openWrite demo_env closed_file))) =
     [lzop_magic @ concat (header_chunks demo_env closed_file) @
      int32_bytes (foldl adler32 1 (header_chunks demo_env closed_file))] \<and>
   (\<exists>c. LZOCompress_block demo_env (demo_file, [7]) [65, 65, 65, 65] =
      Some (demo_file\<lparr>lzo_checksum := c\<rparr>,
            [7] @ [0, 0, 0, 4] @ [0, 0, 0, 3] @ int32_bytes (adler32 1 [65, 65, 65, 65]) @
            int32_bytes (adler32 1 [1, 4, 65]) @ [1, 4, 65]))"
proof -
  have a: "fileSys closed_file \<and> \<not> hfile closed_file \<and>
      hdfsExists demo_env (hdfs_log closed_file) (c_str (filename closed_file)) \<noteq> 0 \<and>
      LZOCompressionLevel closed_file \<noteq> 0 \<and>
      hdfsOpenFile demo_env (hdfs_log closed_file) (c_str (filename closed_file)) O_WRONLY"
    by (simp add: closed_file_def demo_file_def demo_env_def)
  have e: "lzo_adler32 demo_env = adler32" by (simp add: demo_env_def)
  have c: "compressor demo_env (LZOCompressionLevel demo_file) [65, 65, 65, 65] = (0, [1, 4, 65])"
    by (simp add: compressor_def demo_env_def demo_file_def demo_compress_run)
  from a demo_block_ok
       checksums_seeded_at_one [of closed_file demo_env]
       checksums_seeded_at_one [of demo_file demo_env "[65, 65, 65, 65]" "[7]"]
  show ?thesis
    by (simp add: e c int32_bytes_def) (simp add: closed_file_def demo_file_def)
qed

section \<open>openWrite on an existing name\<close>

text \<open>
  Claim C6. When a connected writer without a handle calls \<open>openWrite\<close> on a name that
  exists, the file is opened with \<open>O_WRONLY|O_APPEND\<close>, the compression level is 0
  afterwards whatever it was, and nothing is written. Whenever \<open>openWrite\<close> writes
  anything, the name did not exist, compression was enabled, and what it wrote is the
  stream header.
\<close>

theorem openWrite_existing_name:
  "(fileSys s \<and> \<not> hfile s \<and> hdfsExists E (hdfs_log s) (c_str (filename s)) = 0 \<longrightarrow>
      LZOCompressionLevel (snd (openWrite E s)) = 0 \<and>
      hdfs_log (snd (openWrite E s)) =
        hdfs_log s @ [OpenFile (c_str (filename s)) (O_WRONLY OR O_APPEND)]) \<and>
   (written (hdfs_log (snd (openWrite E s))) \<noteq> written (hdfs_log s) \<longrightarrow>
      hdfsExists E (hdfs_log s) (c_str (filename s)) \<noteq> 0 \<and> LZOCompressionLevel s \<noteq> 0 \<and>
      written (hdfs_log (snd (openWrite E s))) =
        written (hdfs_log s) @ [snd (lzo_header_fields E s (base_filename s))])"
proof (intro conjI impI)
  assume "fileSys s \<and> \<not> hfile s \<and> hdfsExists E (hdfs_log s) (c_str (filename s)) = 0"
  then have a: "fileSys s" "\<not> hfile s" "hdfsExists E (hdfs_log s) (c_str (filename s)) = 0"
    by simp_all
  show "LZOCompressionLevel (snd (openWrite E s)) = 0"
    by (simp add: openWrite_append [OF a])
  show "hdfs_log (snd (openWrite E s)) =
        hdfs_log s @ [OpenFile (c_str (filename s)) (O_WRONLY OR O_APPEND)]"
    by (simp add: openWrite_append [OF a])
next
  assume w: "written (hdfs_log (snd (openWrite E s))) \<noteq> written (hdfs_log s)"
  from openWrite_written [OF w]
  have f: "fileSys s" "\<not> hfile s" "hdfsExists E (hdfs_log s) (c_str (filename s)) \<noteq> 0"
    "LZOCompressionLevel s \<noteq> 0" "hdfsOpenFile E (hdfs_log s) (c_str (filename s)) O_WRONLY"
    by simp_all
  show "hdfsExists E (hdfs_log s) (c_str (filename s)) \<noteq> 0" by (rule f(3))
  show "LZOCompressionLevel s \<noteq> 0" by (rule f(4))
  from openWrite_fresh [OF f] obtain c where "openWrite E s =
     (True, s\<lparr>hfile := True, LZObacklogBuffer := [], lzo_checksum := c,
              hdfs_log := hdfs_log s @ [OpenFile (c_str (filename s)) O_WRONLY,
                                        Write (snd (lzo_header_fields E s (base_filename s)))]\<rparr>)"
    by blast
  then show "written (hdfs_log (snd (openWrite E s))) =
        written (hdfs_log s) @ [snd (lzo_header_fields E s (base_filename s))]"
    by (simp add: written_append)
qed

lemma closed_file_fresh:
  "written (hdfs_log (snd (openWrite demo_env closed_file))) =
     [snd (lzo_header_fields demo_env closed_file (base_filename closed_file))]"
proof -
  have "\<exists>c. openWrite demo_env closed_file =
     (True, closed_file\<lparr>hfile := True, LZObacklogBuffer := [], lzo_checksum := c,
              hdfs_log := hdfs_log closed_file @ [OpenFile (c_str (filename closed_file)) O_WRONLY,
                Write (snd (lzo_header_fields demo_env closed_file (base_filename closed_file)))]\<rparr>)"
    by (rule openWrite_fresh) (simp_all add: closed_file_def demo_file_def demo_env_def)
  then show ?thesis
    by (auto simp add: written_append closed_file_def demo_file_def)
qed

theorem openWrite_existing_name_witness:
  "LZOCompressionLevel (snd (openWrite demo_env reopened_file)) = 0 \<and>
   hdfs_log (snd (openWrite demo_env reopened_file)) =
     [OpenFile [102, 46, 108, 122, 111] 1, CloseFile, OpenFile [102, 46, 108, 122, 111] 1025] \<and>
   written (hdfs_log (snd (openWrite demo_env closed_file))) =
     [snd (lzo_header_fields demo_env closed_file (base_filename closed_file))]"
proof -
  have a: "fileSys reopened_file \<and> \<not> hfile reopened_file \<and>
        hdfsExists demo_env (hdfs_log reopened_file) (c_str (filename reopened_file)) = 0"
    by (simp add: reopened_file_def demo_file_def demo_env_def)
  have b: "written (hdfs_log (snd (openWrite demo_env closed_file))) \<noteq>
        written (hdfs_log closed_file)"
    by (simp add: closed_file_fresh) (simp add: closed_file_def demo_file_def)
  from a b openWrite_existing_name [of reopened_file demo_env]
       openWrite_existing_name [of closed_file demo_env]
  show ?thesis
    by (simp add: reopened_file_def closed_file_def demo_file_def c_str_def
          O_WRONLY_def O_APPEND_def)
qed

section \<open>close\<close>

lemma close_open_eq:
  assumes "fileSys s" "hfile s" "LZOCompressionLevel s \<noteq> 0"
      and "LZOCompress E s [] True = (clearBuf, good, s1)"
  shows "close E s =
     s1\<lparr>hdfs_log := hdfs_log s @ (if good then [Write clearBuf] else []) @
                       [Write [0, 0, 0, 0], CloseFile],
        hfile := False\<rparr>"
proof -
  from LZOCompress_state [OF assms(4)]
  obtain b c where s1: "s1 = s\<lparr>LZObacklogBuffer := b, lzo_checksum := c\<rparr>" by blast
  then have "hdfs_log s1 = hdfs_log s" by simp
  with assms show ?thesis
    by (simp add: close_def Let_def hdfsWrite_call_def hdfsCloseFile_call_def)
qed






text \<open>
  Claim C10. On an open writer with compression enabled, when the forced flush of the
  backlog fails, \<open>close\<close> writes no flushed output: the only buffer it sends is the
  four-byte zero terminator, the handle is closed, and the backlog is left empty, so the
  backlogged bytes are dropped.
\<close>

theorem close_flush_failure:
  assumes "fileSys s" "hfile s" "LZOCompressionLevel s \<noteq> 0"
      and "fst (snd (LZOCompress E s [] True)) = False"
  shows "hdfs_log (close E s) = hdfs_log s @ [Write [0, 0, 0, 0], CloseFile] \<and>
         \<not> hfile (close E s) \<and> LZObacklogBuffer (close E s) = []"
proof -
  obtain clearBuf s1 where l: "LZOCompress E s [] True = (clearBuf, False, s1)"
    using assms(4) by (cases "LZOCompress E s [] True") auto
  from LZOCompress_failure_state [OF l]
  obtain c where "s1 = s\<lparr>LZObacklogBuffer := [], lzo_checksum := c\<rparr>" by blast
  with close_open_eq [OF assms(1-3) l] show ?thesis by simp
qed

lemma failing_flush_eval:
  "LZOCompress failing_env (demo_file\<lparr>LZObacklogBuffer := [65, 66]\<rparr>) [] True =
     ([65, 66], False, demo_file)"
  by (simp add: LZOCompress_eq demo_file_def failing_env_def demo_env_def c_str_def Let_def
        lzo_block_size_def LZOCompress_loop.simps block_data_at_def substr_def
        LZOCompress_block_def LZO_E_OK_def)

theorem close_flush_failure_witness:
  "hdfs_log (close failing_env (demo_file\<lparr>LZObacklogBuffer := [65, 66]\<rparr>)) =
     [Write [0, 0, 0, 0], CloseFile] \<and>
   \<not> hfile (close failing_env (demo_file\<lparr>LZObacklogBuffer := [65, 66]\<rparr>)) \<and>
   LZObacklogBuffer (close failing_env (demo_file\<lparr>LZObacklogBuffer := [65, 66]\<rparr>)) = []"
  using close_flush_failure [of "demo_file\<lparr>LZObacklogBuffer := [65, 66]\<rparr>" failing_env]
  by (simp add: failing_flush_eval) (simp add: demo_file_def)

section \<open>write\<close>

text \<open>
  Claim C9. A \<open>write\<close> on a writer without a handle goes through \<open>openWrite\<close> first; when
  that fails, \<open>write\<close> returns false, leaves the object as \<open>openWrite\<close> left it, and no
  buffer has been sent to the sink.
\<close>

theorem write_file_open_fails:
  assumes "\<not> hfile s" and "fst (openWrite E s) = False"
  shows "write_file E s data = (False, snd (openWrite E s)) \<and>
         written (hdfs_log (snd (openWrite E s))) = written (hdfs_log s)"
proof
  from assms show "write_file E s data = (False, snd (openWrite E s))"
    by (cases "openWrite E s") (simp add: write_file_def isOpen_def)
next
  show "written (hdfs_log (snd (openWrite E s))) = written (hdfs_log s)"
  proof (rule ccontr)
    assume "written (hdfs_log (snd (openWrite E s))) \<noteq> written (hdfs_log s)"
    from openWrite_written [OF this]
    have f: "fileSys s" "\<not> hfile s" "hdfsExists E (hdfs_log s) (c_str (filename s)) \<noteq> 0"
      "LZOCompressionLevel s \<noteq> 0" "hdfsOpenFile E (hdfs_log s) (c_str (filename s)) O_WRONLY"
      by simp_all
    from openWrite_fresh [OF f] have "fst (openWrite E s) = True" by auto
    with assms(2) show False by simp
  qed
qed

theorem write_file_open_fails_witness:
  "write_file offline_env closed_file [65, 66] =
     (False, closed_file\<lparr>hdfs_log := [OpenFile [102, 46, 108, 122, 111] 1]\<rparr>) \<and>
   written (hdfs_log (snd (openWrite offline_env closed_file))) = []"
proof -
  have o: "openWrite offline_env closed_file =
      (False, closed_file\<lparr>hdfs_log := [OpenFile [102, 46, 108, 122, 111] 1]\<rparr>)"
    by (simp add: openWrite_def closed_file_def demo_file_def offline_env_def demo_env_def
          Let_def hdfsOpenFile_call_def c_str_def O_WRONLY_def)
  have a: "\<not> hfile closed_file" by (simp add: closed_file_def)
  have b: "fst (openWrite offline_env closed_file) = False" by (simp add: o)
  from write_file_open_fails [OF a b, of "[65, 66]"] show ?thesis
    by (simp add: o)
qed

text \<open>
  With compression enabled and a handle open, a \<open>write\<close> whose data stays below the
  block size together with the backlog only extends the backlog, by the bytes of the
  data before its first zero byte.
\<close>

lemma write_file_buffers:
  assumes "hfile s" "LZOCompressionLevel s \<noteq> 0"
      and "length (LZObacklogBuffer s @ c_str data) < lzo_block_size"
  shows "write_file E s data = (True, s\<lparr>LZObacklogBuffer := LZObacklogBuffer s @ c_str data\<rparr>)"
  using assms by (simp add: write_file_def isOpen_def LZOCompress_eq Let_def)

lemma write_file_buffers_plain:
  assumes "hfile s" "LZOCompressionLevel s \<noteq> 0"
      and "length (LZObacklogBuffer s @ data) < lzo_block_size" and "0 \<notin> set data"
  shows "write_file E s data = (True, s\<lparr>LZObacklogBuffer := LZObacklogBuffer s @ data\<rparr>)"
  using assms write_file_buffers [of s data E] by (simp add: c_str_id)

text \<open>
  Claim C5, at the three bytes \<open>A\<close>, zero, \<open>B\<close> written on an empty backlog: the call
  reports success and sends nothing to the sink, but the backlog it retains is the single
  byte \<open>A\<close>, not the three bytes written.
\<close>

theorem write_file_backlog_stops_at_zero_byte:
  "write_file demo_env demo_file [65, 0, 66] = (True, demo_file\<lparr>LZObacklogBuffer := [65]\<rparr>)"
  by (simp add: write_file_buffers demo_file_def c_str_def lzo_block_size_def)

theorem write_file_backlog_stops_at_zero_byte_witness:
  "LZObacklogBuffer (snd (write_file demo_env demo_file [65, 0, 66])) = [65] \<and>
   hdfs_log (snd (write_file demo_env demo_file [65, 0, 66])) = []"
  using write_file_backlog_stops_at_zero_byte by (simp add: demo_file_fields)

section \<open>Inputs longer than a block\<close>

lemma demo_compress_long: "256 \<le> length b \<Longrightarrow> demo_compress b = (0, 0 # b)"
  by (simp add: demo_compress_def)

lemma c_str_run: "c_str (replicate 262144 65 @ [66]) = replicate 262144 65 @ [66]"
  by (simp add: c_str_def)

lemma first_block:
  "block_data_at (replicate 262144 65 @ [66]) (Suc 0) 262144 0 = replicate 262144 65"
  by (simp add: block_data_at_def substr_def lzo_block_size_def Let_def)

lemma demo_block_raw:
  "LZOCompress_block demo_env (demo_file, []) (replicate 262144 65) =
     Some (demo_file\<lparr>lzo_checksum := 3145737\<rparr>, [0, 4, 0, 0, 0, 4, 0, 0] @ replicate 262144 65)"
  by (simp add: LZOCompress_block_def demo_file_def demo_env_def demo_compress_long
        LZO_E_OK_def AppendInt32_simp Let_def int32_bytes_def adler32_def)

lemma demo_long_eval:
  "LZOCompress demo_env demo_file (replicate 262144 65 @ [66]) False =
     ([0, 4, 0, 0, 0, 4, 0, 0] @ replicate 262144 65, True,
      demo_file\<lparr>lzo_checksum := 3145737\<rparr>)"
proof -
  have s0: "demo_file\<lparr>LZObacklogBuffer := []\<rparr> = demo_file"
    by (simp add: demo_file_def)
  have loop: "LZOCompress_loop demo_env (replicate 262144 65 @ [66]) (Suc 0) 262144 0 (demo_file, []) =
      (demo_file\<lparr>lzo_checksum := 3145737\<rparr>, Some ([0, 4, 0, 0, 0, 4, 0, 0] @ replicate 262144 65))"
    by (simp add: LZOCompress_loop.simps first_block demo_block_raw)
  have bl: "LZObacklogBuffer demo_file = []" "LZOCompressionLevel demo_file = 1"
    by (simp_all add: demo_file_def)
  have env: "calloc_ok demo_env = (\<lambda>n. True)" by (simp add: demo_env_def)
  show ?thesis
    by (simp add: LZOCompress_eq bl c_str_run s0 env Let_def lzo_block_size_def loop)
qed

text \<open>
  Claim C2, at an input of one block size plus one byte (262144 bytes \<open>A\<close>, then \<open>B\<close>):
  \<open>LZOCompress\<close> succeeds and returns a single frame holding the first 262144 bytes. The
  last block is not lengthened and the byte \<open>B\<close> is in no block.
\<close>

theorem LZOCompress_drops_remainder:
  "LZOCompress demo_env demo_file (replicate 262144 65 @ [66]) False =
     ([0, 4, 0, 0, 0, 4, 0, 0] @ replicate 262144 65, True,
      demo_file\<lparr>lzo_checksum := 3145737\<rparr>)"
  by (rule demo_long_eval)

theorem LZOCompress_drops_remainder_witness:
  "fst (LZOCompress demo_env demo_file (replicate 262144 65 @ [66]) False) =
     [0, 4, 0, 0, 0, 4, 0, 0] @ replicate 262144 65 \<and>
   66 \<notin> set (fst (LZOCompress demo_env demo_file (replicate 262144 65 @ [66]) False))"
  using LZOCompress_drops_remainder by simp

lemma demo_flush_empty:
  assumes "LZObacklogBuffer s = []" "LZOCompressionLevel s = 1"
  shows "\<exists>s1. LZOCompress demo_env s [] True = ([0, 0, 0, 0, 0, 0, 0, 0], True, s1)"
  using assms
  by (simp add: LZOCompress_eq demo_env_def c_str_def Let_def lzo_block_size_def
        LZOCompress_loop.simps block_data_at_def substr_def LZOCompress_block_def
        demo_compress_def LZO_E_OK_def AppendInt32_simp int32_bytes_def)

lemma frame_differs:
  "[0, 4, 0, 0, 0, 4, 0, 0] @ replicate 262144 65 \<noteq> replicate 262144 (65 :: byte) @ [66]"
proof
  assume "[0, 4, 0, 0, 0, 4, 0, 0] @ replicate 262144 65 = replicate 262144 (65 :: byte) @ [66]"
  then have "length ([0, 4, 0, 0, 0, 4, 0, 0] @ replicate 262144 (65 :: byte)) =
             length (replicate 262144 (65 :: byte) @ [66])"
    by (rule arg_cong)
  then show False by simp
qed

lemma demo_write_long:
  "write_file demo_env demo_file (replicate 262144 65 @ [66]) =
     (True, demo_file\<lparr>lzo_checksum := 3145737,
                       hdfs_log := [Write ([0, 4, 0, 0, 0, 4, 0, 0] @ replicate 262144 65)]\<rparr>)"
proof -
  have h: "hfile demo_file" "LZOCompressionLevel demo_file \<noteq> 0" "hdfs_log demo_file = []"
    by (simp_all add: demo_file_def)
  have w: "hdfsWrite demo_env = (\<lambda>log buf. int (length buf))" by (simp add: demo_env_def)
  from frame_differs show ?thesis
    by (simp add: write_file_def isOpen_def h demo_long_eval hdfsWrite_call_def w)
qed

text \<open>
  Claim C1, at the same input written in one call and then closed: \<open>write\<close> reports
  success, and the sink receives the frame of the first 262144 bytes, the frame of the
  empty backlog and the terminator. The byte \<open>B\<close> occurs nowhere in the stream, so the
  payloads cannot reconstruct what was written.
\<close>

theorem write_close_loses_remainder:
  "fst (write_file demo_env demo_file (replicate 262144 65 @ [66])) = True \<and>
   hdfs_log (close demo_env (snd (write_file demo_env demo_file (replicate 262144 65 @ [66])))) =
     [Write ([0, 4, 0, 0, 0, 4, 0, 0] @ replicate 262144 65),
      Write [0, 0, 0, 0, 0, 0, 0, 0], Write [0, 0, 0, 0], CloseFile] \<and>
   66 \<notin> set (concat (written (hdfs_log (close demo_env
           (snd (write_file demo_env demo_file (replicate 262144 65 @ [66])))))))"
proof -
  let ?s = "demo_file\<lparr>lzo_checksum := 3145737,
                       hdfs_log := [Write ([0, 4, 0, 0, 0, 4, 0, 0] @ replicate 262144 65)]\<rparr>"
  have p: "fileSys ?s" "hfile ?s" "LZOCompressionLevel ?s \<noteq> 0"
    by (simp_all add: demo_file_def)
  have "LZObacklogBuffer ?s = []" "LZOCompressionLevel ?s = 1"
    by (simp_all add: demo_file_def)
  from demo_flush_empty [OF this] obtain s1 where
    f: "LZOCompress demo_env ?s [] True = ([0, 0, 0, 0, 0, 0, 0, 0], True, s1)"
    by blast
  have "hdfs_log (close demo_env ?s) =
     [Write ([0, 4, 0, 0, 0, 4, 0, 0] @ replicate 262144 65),
      Write [0, 0, 0, 0, 0, 0, 0, 0], Write [0, 0, 0, 0], CloseFile]"
    using close_open_eq [OF p f] by simp
  then show ?thesis
    by (simp add: demo_write_long)
qed

theorem write_close_loses_remainder_witness:
  "concat (written (hdfs_log (close demo_env
      (snd (write_file demo_env demo_file (replicate 262144 65 @ [66])))))) =
     [0, 4, 0, 0, 0, 4, 0, 0] @ replicate 262144 65 @ [0, 0, 0, 0, 0, 0, 0, 0, 0, 0, 0, 0]"
  using write_close_loses_remainder by simp

lemma failing_block: "LZOCompress_block failing_env (s, str) block = None"
  if "LZOCompressionLevel s \<noteq> 9"
  using that by (simp add: LZOCompress_block_def failing_env_def demo_env_def LZO_E_OK_def)

lemma failing_long:
  "LZOCompress failing_env (demo_file\<lparr>LZObacklogBuffer := [65]\<rparr>) (replicate 262144 66) False =
     ([65] @ replicate 262144 66, False, demo_file)"
proof -
  have env: "calloc_ok failing_env = (\<lambda>n. True)" by (simp add: failing_env_def demo_env_def)
  have c: "c_str (replicate 262144 66) = replicate 262144 66" by (simp add: c_str_def)
  have l: "LZOCompressionLevel demo_file \<noteq> 9" by (simp add: demo_file_def)
  have loop: "LZOCompress_loop failing_env (65 # replicate 262144 66) (Suc 0) 262144 0 (demo_file, []) =
      (demo_file, None)"
    by (simp add: LZOCompress_loop.simps failing_block [OF l])
  show ?thesis
    by (simp add: LZOCompress_eq c env Let_def lzo_block_size_def loop demo_file_fields
          demo_file_no_backlog)
qed

text \<open>
  Claim C3, at a backlog holding the byte \<open>A\<close>, a write of 262144 bytes \<open>B\<close> and a
  compressor that reports an error: \<open>LZOCompress\<close> hands back backlog and data with
  \<open>*success = false\<close>, but \<open>write\<close> sends only its own argument to the sink, clears the
  backlog and returns true. The byte \<open>A\<close> is lost.
\<close>

theorem write_fallback_loses_backlog:
  "write_file failing_env (demo_file\<lparr>LZObacklogBuffer := [65]\<rparr>) (replicate 262144 66) =
     (True, demo_file\<lparr>hdfs_log := [Write (replicate 262144 66)]\<rparr>)"
proof -
  have w: "hdfsWrite failing_env = (\<lambda>log buf. int (length buf))"
    by (simp add: failing_env_def demo_env_def)
  show ?thesis
    by (simp add: write_file_def isOpen_def demo_file_fields failing_long hdfsWrite_call_def w)
qed

theorem write_fallback_loses_backlog_witness:
  "written (hdfs_log (snd (write_file failing_env (demo_file\<lparr>LZObacklogBuffer := [65]\<rparr>)
      (replicate 262144 66)))) = [replicate 262144 66] \<and>
   LZObacklogBuffer (snd (write_file failing_env (demo_file\<lparr>LZObacklogBuffer := [65]\<rparr>)
      (replicate 262144 66))) = []"
  using write_fallback_loses_backlog by (simp add: demo_file_fields)

section \<open>A write after close\<close>






end
